theory Spec2Isabelle
  imports Complex_Main
begin

section \<open>Data model of the Spotify data collection agent (src/aiagent.py)\<close>

text \<open>
  Values decoded by \<^verbatim>\<open>response.json()\<close>. A decoded JSON object is a Python dict with
  string keys; it is kept as an association list read through \<open>map_of\<close>, so the
  first pair with a key is the entry of that key. A float is a finite value or one of the
  three special values the decoder also accepts.
\<close>

datatype pyfloat = Finite real | PosInf | NegInf | NaN

datatype json =
    JNull
  | JBool bool
  | JInt int
  | JFloat pyfloat
  | JStr string
  | JArr "json list"
  | JObj "(string \<times> json) list"

type_synonym pydict = "(string \<times> json) list"

text \<open>The exceptions that the modelled code can raise.\<close>

datatype py_error =
  AttributeError | KeyError | IndexError | TypeError | ValueError | OverflowError

text \<open>
  What an HTTP call does: it raises (a transport error), or it returns a response with a
  status code and a body. \<open>body_json\<close> is what \<^verbatim>\<open>response.json()\<close> gives: \<open>None\<close>
  when the body is not valid JSON, in which case \<^verbatim>\<open>response.json()\<close> raises. A call
  that blocks for ever is not modelled.
\<close>

record response =
  status_code :: int
  body_json :: "json option"

datatype http_outcome = Raises | Returns response

text \<open>
  The fields of \<^verbatim>\<open>SpotifyDataAgent\<close> that the collection loop reads or writes.
  The entries of the \<^verbatim>\<open>collection_stats\<close> dict are fields of the record. Python floats
  are modelled by reals: the success rate and the quality score are quotients of two
  integers, which Python rounds correctly, so their comparisons with \<open>0.5\<close>, \<open>0.8\<close>
  and \<open>0.9\<close> agree with the exact ones as long as \<open>total_requests\<close> stays below
  \<open>10 ^ 14\<close>; the delay multiplier of a run is only ever doubled, which is exact in
  floating point below the overflow threshold. \<open>base_delay\<close> is \<^verbatim>\<open>float\<close> of a
  configured string, which can be infinite or not a number.
\<close>

record agent =
  data_store :: "pydict list"
  total_requests :: int
  successful_requests :: int
  failed_requests :: int
  quality_scores :: "real list"
  delay_multiplier :: real
  base_delay :: pyfloat
  max_requests :: int

text \<open>\<^verbatim>\<open>__init__\<close>: \<open>bd\<close> and \<open>mr\<close> are the configured BASE_DELAY and MAX_REQUESTS.\<close>

definition init_agent :: "pyfloat \<Rightarrow> int \<Rightarrow> agent" where
  "init_agent bd mr =
     \<lparr> data_store = [], total_requests = 0, successful_requests = 0, failed_requests = 0,
       quality_scores = [], delay_multiplier = 1, base_delay = bd, max_requests = mr \<rparr>"

text \<open>How a run of \<^verbatim>\<open>run_collection\<close> ends.\<close>

datatype status = COMPLETE | ABORTED | RAISED py_error

section \<open>Python operations on decoded JSON\<close>

text \<open>Truth value of an object, as \<^verbatim>\<open>if data:\<close> and \<^verbatim>\<open>if not token:\<close> test it.\<close>

fun truthy :: "json \<Rightarrow> bool" where
  "truthy JNull = False"
| "truthy (JBool b) = b"
| "truthy (JInt n) = (n \<noteq> 0)"
| "truthy (JFloat x) = (x \<noteq> Finite 0)"
| "truthy (JStr s) = (s \<noteq> [])"
| "truthy (JArr xs) = (xs \<noteq> [])"
| "truthy (JObj d) = (d \<noteq> [])"

text \<open>\<open>None\<close> is Python's \<^verbatim>\<open>None\<close>, which is false.\<close>

fun truthy_opt :: "json option \<Rightarrow> bool" where
  "truthy_opt None = False"
| "truthy_opt (Some j) = truthy j"

text \<open>\<^verbatim>\<open>k in d\<close> for a dict \<open>d\<close>.\<close>

definition has_key :: "string \<Rightarrow> pydict \<Rightarrow> bool" where
  "has_key k d = (map_of d k \<noteq> None)"

text \<open>\<^verbatim>\<open>x.get(k, default)\<close>: only a dict has the attribute.\<close>

fun py_get :: "json \<Rightarrow> string \<Rightarrow> json \<Rightarrow> py_error + json" where
  "py_get (JObj d) k dflt = Inr (case map_of d k of None \<Rightarrow> dflt | Some v \<Rightarrow> v)"
| "py_get _ k dflt = Inl AttributeError"

text \<open>\<^verbatim>\<open>x[k]\<close> with a string key: a missing key of a dict is a KeyError, every other
  type refuses a string subscript.\<close>

fun subscript_key :: "json \<Rightarrow> string \<Rightarrow> py_error + json" where
  "subscript_key (JObj d) k = (case map_of d k of None \<Rightarrow> Inl KeyError | Some v \<Rightarrow> Inr v)"
| "subscript_key _ k = Inl TypeError"

text \<open>\<^verbatim>\<open>x[0]\<close>: the first element of a list, the first character of a string; a decoded
  dict has string keys only, so the key \<open>0\<close> is missing.\<close>

fun subscript_0 :: "json \<Rightarrow> py_error + json" where
  "subscript_0 (JArr []) = Inl IndexError"
| "subscript_0 (JArr (x # xs)) = Inr x"
| "subscript_0 (JStr []) = Inl IndexError"
| "subscript_0 (JStr (c # cs)) = Inr (JStr [c])"
| "subscript_0 (JObj d) = Inl KeyError"
| "subscript_0 _ = Inl TypeError"

text \<open>\<^verbatim>\<open>for a in x\<close>: the elements of a list, the keys of a dict, the characters of a
  string; nothing else is iterable.\<close>

fun py_iter :: "json \<Rightarrow> py_error + json list" where
  "py_iter (JArr xs) = Inr xs"
| "py_iter (JObj d) = Inr (map JStr (remdups (map fst d)))"
| "py_iter (JStr s) = Inr (map (\<lambda>c. JStr [c]) s)"
| "py_iter _ = Inl TypeError"

section \<open>Token acquisition\<close>

text \<open>
  \<^verbatim>\<open>get_token\<close>: every exception inside the \<^verbatim>\<open>try\<close> (the POST raising,
  \<^verbatim>\<open>raise_for_status\<close> on a 4xx or 5xx status, a body that is not JSON, a body without
  \<^verbatim>\<open>access_token\<close>) is caught and gives \<^verbatim>\<open>None\<close>.
\<close>

definition get_token :: "http_outcome \<Rightarrow> json option" where
  "get_token r =
     (case r of
        Raises \<Rightarrow> None
      | Returns resp \<Rightarrow>
          if 400 \<le> status_code resp \<and> status_code resp < 600 then None
          else (case body_json resp of
                  None \<Rightarrow> None
                | Some j \<Rightarrow> (case subscript_key j ''access_token'' of
                              Inl e \<Rightarrow> None
                            | Inr token \<Rightarrow> Some token)))"

section \<open>One iteration of the collection loop\<close>

text \<open>\<^verbatim>\<open>collection_complete\<close>.\<close>

definition collection_complete :: "agent \<Rightarrow> bool" where
  "collection_complete s = (total_requests s \<ge> max_requests s)"

text \<open>
  \<^verbatim>\<open>collect_batch\<close>: the counter of requests goes up first; the status test, the
  count of the success and \<^verbatim>\<open>response.json()\<close> are all inside the \<^verbatim>\<open>try\<close>, whose
  handler counts a failure.
\<close>

definition collect_batch :: "http_outcome \<Rightarrow> agent \<Rightarrow> json option \<times> agent" where
  "collect_batch r s =
     (let s1 = s\<lparr>total_requests := total_requests s + 1\<rparr> in
      case r of
        Raises \<Rightarrow> (None, s1\<lparr>failed_requests := failed_requests s1 + 1\<rparr>)
      | Returns resp \<Rightarrow>
          if status_code resp = 200 then
            (let s2 = s1\<lparr>successful_requests := successful_requests s1 + 1\<rparr> in
             case body_json resp of
               None \<Rightarrow> (None, s2\<lparr>failed_requests := failed_requests s2 + 1\<rparr>)
             | Some j \<Rightarrow> (Some j, s2))
          else (None, s1\<lparr>failed_requests := failed_requests s1 + 1\<rparr>))"

text \<open>The dict display of \<^verbatim>\<open>process_data\<close> for one raw item, its three values
  evaluated from left to right.\<close>

definition item_record :: "json \<Rightarrow> py_error + pydict" where
  "item_record a =
     (case subscript_key a ''name'' of
        Inl e \<Rightarrow> Inl e
      | Inr nm \<Rightarrow>
     (case subscript_key a ''artists'' of
        Inl e \<Rightarrow> Inl e
      | Inr ars \<Rightarrow>
     (case subscript_0 ars of
        Inl e \<Rightarrow> Inl e
      | Inr ar \<Rightarrow>
     (case subscript_key ar ''name'' of
        Inl e \<Rightarrow> Inl e
      | Inr arnm \<Rightarrow>
     (case subscript_key a ''id'' of
        Inl e \<Rightarrow> Inl e
      | Inr ident \<Rightarrow> Inr [(''name'', nm), (''artist'', arnm), (''id'', ident)])))))"

text \<open>The list comprehension: the first item that raises ends it.\<close>

fun comprehend :: "json list \<Rightarrow> py_error + pydict list" where
  "comprehend [] = Inr []"
| "comprehend (a # as) =
     (case item_record a of
        Inl e \<Rightarrow> Inl e
      | Inr rec \<Rightarrow> (case comprehend as of Inl e \<Rightarrow> Inl e | Inr recs \<Rightarrow> Inr (rec # recs)))"

text \<open>\<^verbatim>\<open>process_data\<close>, first line: \<^verbatim>\<open>data.get("albums", {}).get("items", [])\<close>.\<close>

definition albums_of :: "json \<Rightarrow> py_error + json" where
  "albums_of data =
     (case py_get data ''albums'' (JObj []) of
        Inl e \<Rightarrow> Inl e
      | Inr al \<Rightarrow> py_get al ''items'' (JArr []))"

text \<open>\<^verbatim>\<open>process_data\<close>.\<close>

definition process_data :: "json \<Rightarrow> py_error + pydict list" where
  "process_data data =
     (case albums_of data of
        Inl e \<Rightarrow> Inl e
      | Inr albums \<Rightarrow>
     (case py_iter albums of
        Inl e \<Rightarrow> Inl e
      | Inr its \<Rightarrow> comprehend its))"

text \<open>\<^verbatim>\<open>validate_data\<close> and \<^verbatim>\<open>store_data\<close>.\<close>

definition complete_record :: "pydict \<Rightarrow> bool" where
  "complete_record d = (has_key ''name'' d \<and> has_key ''artist'' d)"

definition validate_data :: "pydict list \<Rightarrow> bool" where
  "validate_data data = list_all complete_record data"

definition store_data :: "pydict list \<Rightarrow> agent \<Rightarrow> agent" where
  "store_data data s = s\<lparr>data_store := data_store s @ data\<rparr>"

text \<open>\<^verbatim>\<open>if self.validate_data(processed): self.store_data(processed)\<close>.\<close>

definition store_if_valid :: "pydict list \<Rightarrow> agent \<Rightarrow> agent" where
  "store_if_valid processed s = (if validate_data processed then store_data processed s else s)"

text \<open>\<^verbatim>\<open>get_success_rate\<close>.\<close>

definition get_success_rate :: "agent \<Rightarrow> real" where
  "get_success_rate s =
     (if total_requests s > 0
      then real_of_int (successful_requests s) / real_of_int (total_requests s) else 0)"

text \<open>\<^verbatim>\<open>assess_data_quality\<close>: the returned score and the agent afterwards.\<close>

definition assess_data_quality :: "agent \<Rightarrow> real \<times> agent" where
  "assess_data_quality s =
     (if data_store s = [] then (0, s)
      else
        (let complete_items = sum_list (map (\<lambda>d. (1::int)) (filter complete_record (data_store s)));
             score = real_of_int complete_items / real (length (data_store s))
         in (score, s\<lparr>quality_scores := quality_scores s @ [score]\<rparr>)))"

text \<open>\<^verbatim>\<open>adjust_strategy\<close>.\<close>

definition adjust_strategy :: "agent \<Rightarrow> agent" where
  "adjust_strategy s =
     (let success_rate = get_success_rate s in
      if success_rate < 0.5 then s\<lparr>delay_multiplier := delay_multiplier s * 2\<rparr>
      else if success_rate > 0.9 then s\<lparr>delay_multiplier := delay_multiplier s * 0.8\<rparr>
      else s)"

text \<open>\<^verbatim>\<open>assess_performance\<close>.\<close>

definition assess_performance :: "agent \<Rightarrow> agent" where
  "assess_performance s =
     (let success_rate = get_success_rate s;
          s1 = snd (assess_data_quality s)
      in if success_rate < 0.8 then adjust_strategy s1 else s1)"

text \<open>
  The product of a float and a finite float, where it is infinite or not a number as
  well as where it is finite. The rounding of a finite product is not modelled.
\<close>

fun fmul :: "pyfloat \<Rightarrow> real \<Rightarrow> pyfloat" where
  "fmul (Finite x) r = Finite (x * r)"
| "fmul PosInf r = (if 0 < r then PosInf else if r < 0 then NegInf else NaN)"
| "fmul NegInf r = (if 0 < r then NegInf else if r < 0 then PosInf else NaN)"
| "fmul NaN r = NaN"

text \<open>
  \<^verbatim>\<open>time.sleep(secs)\<close> as far as it can raise. The length is converted to a signed
  64-bit count of nanoseconds, rounded away from zero: not a number is a ValueError, a
  count that does not fit is an OverflowError. After that a negative length is a
  ValueError. Otherwise the call returns, after the time has passed.
\<close>

definition time_sleep :: "pyfloat \<Rightarrow> py_error option" where
  "time_sleep secs =
     (case secs of
        NaN \<Rightarrow> Some ValueError
      | PosInf \<Rightarrow> Some OverflowError
      | NegInf \<Rightarrow> Some OverflowError
      | Finite d \<Rightarrow>
          (let ns = (if 0 \<le> d then \<lceil>d * 10 ^ 9\<rceil> else \<lfloor>d * 10 ^ 9\<rfloor>) in
           if ns < - (2 ^ 63) \<or> 2 ^ 63 \<le> ns then Some OverflowError
           else if ns < 0 then Some ValueError
           else None))"

text \<open>
  \<^verbatim>\<open>respectful_delay\<close>: \<open>jitter\<close> is the value drawn by \<^verbatim>\<open>random.uniform(0.5, 1.5)\<close>.
  The agent is not changed.
\<close>

definition respectful_delay :: "real \<Rightarrow> agent \<Rightarrow> py_error option" where
  "respectful_delay jitter s =
     (let delay = fmul (fmul (base_delay s) (delay_multiplier s)) jitter in
      time_sleep delay)"

text \<open>
  \<^verbatim>\<open>if data:\<close> with the processing, validation and storage under it. An exception of
  \<^verbatim>\<open>process_data\<close> is not caught.
\<close>

definition handle_data :: "json option \<Rightarrow> agent \<Rightarrow> py_error + agent" where
  "handle_data data s =
     (case data of
        None \<Rightarrow> Inr s
      | Some d \<Rightarrow>
          if truthy d then
            (case process_data d of
               Inl e \<Rightarrow> Inl e
             | Inr processed \<Rightarrow> Inr (store_if_valid processed s))
          else Inr s)"

text \<open>
  The body of the \<^verbatim>\<open>while\<close> loop of \<^verbatim>\<open>run_collection\<close>. \<open>r\<close> is what the GET of this
  iteration does, \<open>jitter\<close> the random draw of its delay. The result is the exception
  that leaves the body, if any, and the agent at that point.
\<close>

definition loop_body :: "http_outcome \<Rightarrow> real \<Rightarrow> agent \<Rightarrow> py_error option \<times> agent" where
  "loop_body r jitter s =
     (let (data, s1) = collect_batch r s in
      case handle_data data s1 of
        Inl e \<Rightarrow> (Some e, s1)
      | Inr s2 \<Rightarrow>
          (let s3 = assess_performance s2 in (respectful_delay jitter s3, s3)))"

section \<open>The collection loop and the run\<close>

text \<open>
  The \<^verbatim>\<open>while\<close> loop. \<open>env i\<close> is what the environment does in the \<open>i\<close>-th iteration:
  the outcome of its GET and the jitter of its delay. An exception that leaves the body
  leaves the loop and \<^verbatim>\<open>run_collection\<close>; otherwise the loop ends when
  \<^verbatim>\<open>collection_complete\<close> holds, and the final report is written.
\<close>

function collection_loop :: "(nat \<Rightarrow> http_outcome \<times> real) \<Rightarrow> nat \<Rightarrow> agent \<Rightarrow> status \<times> agent" where
  "collection_loop env i s =
     (if collection_complete s then (COMPLETE, s)
      else (case loop_body (fst (env i)) (snd (env i)) s of
              (Some e, s') \<Rightarrow> (RAISED e, s')
            | (None, s') \<Rightarrow> collection_loop env (Suc i) s'))"
  by pat_completeness auto

text \<open>
  \<^verbatim>\<open>run_collection\<close>: \<open>tr\<close> is what the POST to the token endpoint does. Without a
  token the method returns before the loop.
\<close>

definition run_collection :: "http_outcome \<Rightarrow> (nat \<Rightarrow> http_outcome \<times> real) \<Rightarrow> agent \<Rightarrow> status \<times> agent" where
  "run_collection tr env s =
     (let token = get_token tr in
      if \<not> truthy_opt token then (ABORTED, s) else collection_loop env 0 s)"

text \<open>
  The agents a run can have at the head of its loop: the one \<^verbatim>\<open>__init__\<close> builds, and
  the one left by an iteration that the loop guard admitted and that raised nothing.
\<close>

inductive reachable :: "pyfloat \<Rightarrow> int \<Rightarrow> agent \<Rightarrow> bool" for bd :: pyfloat and mr :: int where
  start: "reachable bd mr (init_agent bd mr)"
| iteration: "reachable bd mr s \<Longrightarrow> \<not> collection_complete s \<Longrightarrow> loop_body r jitter s = (None, s')
     \<Longrightarrow> reachable bd mr s'"

section \<open>Payloads and environments used as concrete inputs\<close>

text \<open>A raw album as the endpoint lists it, and one whose \<^verbatim>\<open>artists\<close> field is missing.\<close>

definition album_ok :: json where
  "album_ok = JObj [(''name'', JStr ''Blue''), (''artists'', JArr [JObj [(''name'', JStr ''Ann'')]]),
                    (''id'', JStr ''a1'')]"

definition album_no_artists :: json where
  "album_no_artists = JObj [(''name'', JStr ''Blue''), (''id'', JStr ''a1'')]"

definition payload :: "json list \<Rightarrow> json" where
  "payload its = JObj [(''albums'', JObj [(''items'', JArr its)])]"

definition ok_response :: "json \<Rightarrow> http_outcome" where
  "ok_response j = Returns \<lparr>status_code = 200, body_json = Some j\<rparr>"

text \<open>A 200 response whose body is not JSON.\<close>

definition undecodable_response :: http_outcome where
  "undecodable_response = Returns \<lparr>status_code = 200, body_json = None\<rparr>"

text \<open>Environments: every GET succeeds with one well-formed album; every GET succeeds with
  an album that has no artists; every GET succeeds with a well-formed album followed by
  one that has no artists. The jitter is always 1.\<close>

definition env_ok :: "nat \<Rightarrow> http_outcome \<times> real" where
  "env_ok i = (ok_response (payload [album_ok]), 1)"


definition env_mixed :: "nat \<Rightarrow> http_outcome \<times> real" where
  "env_mixed i = (ok_response (payload [album_ok, album_no_artists]), 1)"

text \<open>Agents at the head of the loop after four requests, one and three of them
  successful; an agent that has stored one record.\<close>

definition low_rate_agent :: agent where
  "low_rate_agent =
     (init_agent (Finite 1) 20)\<lparr>total_requests := 4, successful_requests := 1, failed_requests := 3\<rparr>"

definition middle_rate_agent :: agent where
  "middle_rate_agent =
     (init_agent (Finite 1) 20)\<lparr>total_requests := 4, successful_requests := 3, failed_requests := 1\<rparr>"

definition one_record_agent :: agent where
  "one_record_agent =
     (init_agent (Finite 1) 20)\<lparr>data_store :=
        [[(''name'', JStr ''Blue''), (''artist'', JStr ''Ann''), (''id'', JStr ''a1'')]]\<rparr>"

text \<open>
  The spec's reading of an item with all its sub-fields: a dict with \<^verbatim>\<open>name\<close> and
  \<^verbatim>\<open>id\<close> and a non-empty \<^verbatim>\<open>artists\<close> list whose first element is a dict with
  \<^verbatim>\<open>name\<close>.
\<close>

definition item_complete :: "json \<Rightarrow> bool" where
  "item_complete a =
     (case a of
        JObj d \<Rightarrow>
          has_key ''name'' d \<and> has_key ''id'' d \<and>
          (case map_of d ''artists'' of
             Some (JArr (JObj ad # rest)) \<Rightarrow> has_key ''name'' ad
           | _ \<Rightarrow> False)
      | _ \<Rightarrow> False)"

text \<open>The Record of a raw item that has all its sub-fields.\<close>

inductive record_of_item :: "json \<Rightarrow> pydict \<Rightarrow> bool" where
  "map_of d ''name'' = Some nm \<Longrightarrow> map_of d ''artists'' = Some (JArr (JObj ad # rest)) \<Longrightarrow>
   map_of ad ''name'' = Some arnm \<Longrightarrow> map_of d ''id'' = Some ident \<Longrightarrow>
   record_of_item (JObj d) [(''name'', nm), (''artist'', arnm), (''id'', ident)]"




section \<open>What an iteration leaves unchanged; termination of the loop\<close>

lemma collect_batch_total:
  "collect_batch r s = (d, s') \<Longrightarrow>
     total_requests s' = total_requests s + 1 \<and> max_requests s' = max_requests s"
  by (auto simp: collect_batch_def Let_def split: http_outcome.splits if_splits option.splits)

lemma store_if_valid_fields:
  "total_requests (store_if_valid p s) = total_requests s"
  "max_requests (store_if_valid p s) = max_requests s"
  "successful_requests (store_if_valid p s) = successful_requests s"
  "failed_requests (store_if_valid p s) = failed_requests s"
  "delay_multiplier (store_if_valid p s) = delay_multiplier s"
  "quality_scores (store_if_valid p s) = quality_scores s"
  "base_delay (store_if_valid p s) = base_delay s"
  by (simp_all add: store_if_valid_def store_data_def)

lemma handle_data_fields:
  assumes "handle_data d s = Inr s'"
  shows "total_requests s' = total_requests s" "max_requests s' = max_requests s"
    "successful_requests s' = successful_requests s" "failed_requests s' = failed_requests s"
    "delay_multiplier s' = delay_multiplier s" "quality_scores s' = quality_scores s"
    "base_delay s' = base_delay s"
  using assms by (auto simp: handle_data_def store_if_valid_fields split: option.splits if_splits sum.splits)

lemma assess_data_quality_fields:
  "total_requests (snd (assess_data_quality s)) = total_requests s"
  "max_requests (snd (assess_data_quality s)) = max_requests s"
  "successful_requests (snd (assess_data_quality s)) = successful_requests s"
  "failed_requests (snd (assess_data_quality s)) = failed_requests s"
  "delay_multiplier (snd (assess_data_quality s)) = delay_multiplier s"
  "data_store (snd (assess_data_quality s)) = data_store s"
  "base_delay (snd (assess_data_quality s)) = base_delay s"
  by (simp_all add: assess_data_quality_def Let_def)

lemma adjust_strategy_fields:
  "total_requests (adjust_strategy s) = total_requests s"
  "max_requests (adjust_strategy s) = max_requests s"
  "successful_requests (adjust_strategy s) = successful_requests s"
  "failed_requests (adjust_strategy s) = failed_requests s"
  "data_store (adjust_strategy s) = data_store s"
  "quality_scores (adjust_strategy s) = quality_scores s"
  "base_delay (adjust_strategy s) = base_delay s"
  by (simp_all add: adjust_strategy_def Let_def)

lemma assess_performance_fields:
  "total_requests (assess_performance s) = total_requests s"
  "max_requests (assess_performance s) = max_requests s"
  "successful_requests (assess_performance s) = successful_requests s"
  "failed_requests (assess_performance s) = failed_requests s"
  "data_store (assess_performance s) = data_store s"
  "base_delay (assess_performance s) = base_delay s"
  by (simp_all add: assess_performance_def Let_def adjust_strategy_fields assess_data_quality_fields)

lemma loop_body_total:
  assumes "loop_body r j s = (x, s')"
  shows "total_requests s' = total_requests s + 1 \<and> max_requests s' = max_requests s"
proof -
  obtain d s1 where c: "collect_batch r s = (d, s1)" by (cases "collect_batch r s")
  note t = collect_batch_total [OF c]
  show ?thesis
  proof (cases "handle_data d s1")
    case (Inl e)
    with assms c t show ?thesis by (simp add: loop_body_def)
  next
    case (Inr s2)
    with assms c t handle_data_fields [OF Inr] show ?thesis
      by (auto simp: loop_body_def Let_def assess_performance_fields)
  qed
qed

termination collection_loop
proof (relation "measure (\<lambda>(env, i, s). nat (max_requests s - total_requests s))")
  show "wf (measure (\<lambda>(env, i, s). nat (max_requests s - total_requests s)))" by simp
next
  fix env :: "nat \<Rightarrow> http_outcome \<times> real" and i s x s' 
  fix x2 :: agent and x1 :: "py_error option"
  assume a: "\<not> collection_complete s" "(x1, x2) = loop_body (fst (env i)) (snd (env i)) s" "x1 = None"
  from a(2) have "loop_body (fst (env i)) (snd (env i)) s = (x1, x2)" by simp
  from loop_body_total [OF this] a(1)
  show "((env, Suc i, x2), env, i, s) \<in> measure (\<lambda>(env, i, s). nat (max_requests s - total_requests s))"
    by (simp add: collection_complete_def)
qed

section \<open>The counters of requests\<close>

text \<open>
  \<^verbatim>\<open>collect_batch\<close> keeps \<open>successful_requests + failed_requests = total_requests\<close>
  in every branch but one, the 200 response whose body \<^verbatim>\<open>response.json()\<close> cannot decode;
  the rest of the iteration does not touch the counters.
\<close>

lemma collect_batch_equation:
  assumes "collect_batch r s = (d, s')"
    and "\<forall>resp. r = Returns resp \<longrightarrow> status_code resp = 200 \<longrightarrow> body_json resp \<noteq> None"
    and "successful_requests s + failed_requests s = total_requests s"
  shows "successful_requests s' + failed_requests s' = total_requests s'"
  using assms
  by (auto simp: collect_batch_def Let_def split: http_outcome.splits if_splits option.splits)

lemma loop_body_counters:
  assumes "loop_body r j s = (x, s')"
  shows "\<exists>d s1. collect_batch r s = (d, s1) \<and> successful_requests s' = successful_requests s1
     \<and> failed_requests s' = failed_requests s1 \<and> total_requests s' = total_requests s1"
proof -
  obtain d s1 where c: "collect_batch r s = (d, s1)" by (cases "collect_batch r s")
  show ?thesis
  proof (cases "handle_data d s1")
    case (Inl e)
    with assms c show ?thesis by (simp add: loop_body_def)
  next
    case (Inr s2)
    with assms c handle_data_fields [OF Inr] show ?thesis
      by (auto simp: loop_body_def Let_def assess_performance_fields)
  qed
qed

lemma loop_body_equation_decodable:
  assumes "loop_body r j s = (x, s')"
    and "\<forall>resp. r = Returns resp \<longrightarrow> status_code resp = 200 \<longrightarrow> body_json resp \<noteq> None"
    and "successful_requests s + failed_requests s = total_requests s"
  shows "successful_requests s' + failed_requests s' = total_requests s'"
proof -
  from loop_body_counters [OF assms(1)] obtain d s1 where
    c: "collect_batch r s = (d, s1)" and e: "successful_requests s' = successful_requests s1"
      "failed_requests s' = failed_requests s1" "total_requests s' = total_requests s1" by blast
  from collect_batch_equation [OF c assms(2,3)] e show ?thesis by simp
qed

text \<open>
  Claim C1 says that after every completed iteration
  \<open>successful_requests + failed_requests = total_requests\<close>, each fetch counting as
  exactly one of a success or a failure. The first iteration of a run whose GET returns
  status 200 with a body that is not JSON completes (nothing is raised), and leaves
  \<open>total_requests = 1\<close>, \<open>successful_requests = 1\<close> and \<open>failed_requests = 1\<close>: the
  success is counted before \<^verbatim>\<open>response.json()\<close> raises inside the \<^verbatim>\<open>try\<close>, and the
  handler counts a failure for the same request.
\<close>

theorem counter_equation_fails_on_undecodable_body:
  "\<not> collection_complete (init_agent (Finite 1) 3) \<and>
   fst (loop_body undecodable_response 1 (init_agent (Finite 1) 3)) = None \<and>
   total_requests (snd (loop_body undecodable_response 1 (init_agent (Finite 1) 3))) = 1 \<and>
   successful_requests (snd (loop_body undecodable_response 1 (init_agent (Finite 1) 3))) = 1 \<and>
   failed_requests (snd (loop_body undecodable_response 1 (init_agent (Finite 1) 3))) = 1 \<and>
   successful_requests (snd (loop_body undecodable_response 1 (init_agent (Finite 1) 3)))
     + failed_requests (snd (loop_body undecodable_response 1 (init_agent (Finite 1) 3)))
     \<noteq> total_requests (snd (loop_body undecodable_response 1 (init_agent (Finite 1) 3)))"
  by (simp add: loop_body_def collect_batch_def undecodable_response_def init_agent_def handle_data_def
      assess_performance_def assess_data_quality_def get_success_rate_def adjust_strategy_def
      respectful_delay_def time_sleep_def collection_complete_def Let_def)

section \<open>Transforming a payload into records\<close>

lemma subscript_0_Inr:
  "subscript_0 x = Inr y \<Longrightarrow>
     (\<exists>xs. x = JArr (y # xs)) \<or> (\<exists>c cs. x = JStr (c # cs) \<and> y = JStr [c])"
  by (cases x rule: subscript_0.cases) auto

lemma item_record_complete: "(\<exists>rec. item_record a = Inr rec) = item_complete a"
proof (cases a)
  case (JObj d)
  show ?thesis
  proof (cases "map_of d ''name''")
    case None
    with JObj show ?thesis by (simp add: item_record_def item_complete_def has_key_def)
  next
    case nm: (Some n)
    show ?thesis
    proof (cases "map_of d ''artists''")
      case None
      with JObj nm show ?thesis by (simp add: item_record_def item_complete_def has_key_def)
    next
      case ars: (Some ar)
      show ?thesis
      proof (cases "subscript_0 ar")
        case (Inl e)
        then have "\<not> (\<exists>ad rest. ar = JArr (JObj ad # rest))" by auto
        with JObj nm ars Inl show ?thesis
          by (auto simp: item_record_def item_complete_def has_key_def split: json.splits list.splits)
      next
        case (Inr fst_ar)
        from subscript_0_Inr [OF Inr] show ?thesis
        proof
          assume "\<exists>xs. ar = JArr (fst_ar # xs)"
          with JObj nm ars show ?thesis
            by (cases fst_ar)
              (auto simp: item_record_def item_complete_def has_key_def
                split: option.splits)
        next
          assume "\<exists>c cs. ar = JStr (c # cs) \<and> fst_ar = JStr [c]"
          with JObj nm ars show ?thesis
            by (auto simp: item_record_def item_complete_def has_key_def)
        qed
      qed
    qed
  qed
qed (simp_all add: item_record_def item_complete_def)

lemma comprehend_Inr:
  "comprehend its = Inr recs \<Longrightarrow> list_all item_complete its \<and> length recs = length its"
proof (induction its arbitrary: recs)
  case Nil
  then show ?case by simp
next
  case (Cons a its)
  from Cons.prems obtain r rs where r: "item_record a = Inr r" and rs: "comprehend its = Inr rs"
    and recs: "recs = r # rs"
    by (auto split: sum.splits)
  from r item_record_complete [of a] have "item_complete a" by auto
  with Cons.IH [OF rs] recs show ?case by simp
qed

lemma comprehend_complete:
  "list_all item_complete its \<Longrightarrow> \<exists>recs. comprehend its = Inr recs"
proof (induction its)
  case Nil
  then show ?case by simp
next
  case (Cons a its)
  then obtain rs where rs: "comprehend its = Inr rs" by auto
  from Cons.prems item_record_complete [of a] obtain r where "item_record a = Inr r" by auto
  with rs show ?case by simp
qed

lemma subscript_key_errors: "subscript_key x k = Inl e \<Longrightarrow> e = KeyError \<or> e = TypeError"
  by (cases x) (auto split: option.splits)

lemma subscript_0_errors:
  "subscript_0 x = Inl e \<Longrightarrow> e = KeyError \<or> e = IndexError \<or> e = TypeError"
  by (cases x rule: subscript_0.cases) auto

lemma item_record_errors:
  "item_record a = Inl e \<Longrightarrow> e = KeyError \<or> e = IndexError \<or> e = TypeError"
  unfolding item_record_def
  by (auto split: sum.splits dest: subscript_key_errors subscript_0_errors)

lemma comprehend_errors:
  "comprehend its = Inl e \<Longrightarrow> e = KeyError \<or> e = IndexError \<or> e = TypeError"
proof (induction its)
  case Nil
  then show ?case by simp
next
  case (Cons a its)
  then show ?case by (auto split: sum.splits dest: item_record_errors)
qed

lemma item_record_record_of_item:
  assumes "item_record a = Inr rec"
  shows "record_of_item a rec"
proof -
  from assms obtain nm ars ar arnm ident where
    n: "subscript_key a ''name'' = Inr nm" and s: "subscript_key a ''artists'' = Inr ars" and
    z: "subscript_0 ars = Inr ar" and an: "subscript_key ar ''name'' = Inr arnm" and
    i: "subscript_key a ''id'' = Inr ident" and
    r: "rec = [(''name'', nm), (''artist'', arnm), (''id'', ident)]"
    by (auto simp: item_record_def split: sum.splits)
  from n obtain d where a: "a = JObj d" by (cases a) auto
  from an obtain ad where ar: "ar = JObj ad" by (cases ar) auto
  from subscript_0_Inr [OF z] ar obtain rest where ars: "ars = JArr (JObj ad # rest)" by auto
  from n s an i a ar ars have "map_of d ''name'' = Some nm" "map_of d ''artists'' = Some (JArr (JObj ad # rest))"
    "map_of ad ''name'' = Some arnm" "map_of d ''id'' = Some ident"
    by (auto split: option.splits)
  then show ?thesis unfolding a r by (rule record_of_item.intros)
qed

lemma comprehend_records:
  "comprehend its = Inr recs \<Longrightarrow> list_all2 record_of_item its recs"
proof (induction its arbitrary: recs)
  case Nil
  then show ?case by simp
next
  case (Cons a its)
  then show ?case by (auto split: sum.splits intro: item_record_record_of_item)
qed

text \<open>
  Claim C3 says that transforming a fetched payload never errors, an item without one of
  its sub-fields being skipped. On a payload whose only album has no \<^verbatim>\<open>artists\<close> key
  \<^verbatim>\<open>process_data\<close> raises KeyError.
\<close>

theorem process_data_raises_counterexample:
  "albums_of (payload [album_no_artists]) = Inr (JArr [album_no_artists]) \<and>
   process_data (payload [album_no_artists]) = Inl KeyError"
  by (simp add: process_data_def albums_of_def payload_def album_no_artists_def item_record_def)

text \<open>
  Claim C3 as amended: when the payload lists its raw items in a list, \<^verbatim>\<open>process_data\<close>
  yields one record for every item, in order and skipping none, each the Record of its
  item, if every item is a dict with \<^verbatim>\<open>name\<close>, \<^verbatim>\<open>id\<close> and a non-empty \<^verbatim>\<open>artists\<close>
  list whose first element is a dict with \<^verbatim>\<open>name\<close>; if some item is not, it raises
  KeyError, IndexError or TypeError and yields no record at all.
\<close>

theorem process_data_all_or_raise:
  assumes "albums_of data = Inr (JArr its)"
  shows "(list_all item_complete its \<longrightarrow>
            (\<exists>recs. process_data data = Inr recs \<and> list_all2 record_of_item its recs \<and>
                    length recs = length its)) \<and>
         (\<not> list_all item_complete its \<longrightarrow>
            process_data data = Inl KeyError \<or> process_data data = Inl IndexError \<or>
            process_data data = Inl TypeError)"
proof -
  have pd: "process_data data = comprehend its"
    using assms by (simp add: process_data_def)
  show ?thesis
  proof (cases "comprehend its")
    case (Inl e)
    with comprehend_complete [of its] comprehend_errors [OF Inl] pd show ?thesis by auto
  next
    case (Inr recs)
    with comprehend_Inr [OF Inr] comprehend_records [OF Inr] pd show ?thesis by simp
  qed
qed

text \<open>The amended claim C3 on a payload of one well-formed album, and on a payload
  whose second album has no artists.\<close>

theorem process_data_all_or_raise_witness:
  "albums_of (payload [album_ok]) = Inr (JArr [album_ok]) \<and> list_all item_complete [album_ok] \<and>
   (\<exists>recs. process_data (payload [album_ok]) = Inr recs \<and>
      list_all2 record_of_item [album_ok] recs \<and> length recs = length [album_ok]) \<and>
   albums_of (payload [album_ok, album_no_artists]) = Inr (JArr [album_ok, album_no_artists]) \<and>
   \<not> list_all item_complete [album_ok, album_no_artists] \<and>
   process_data (payload [album_ok, album_no_artists]) = Inl KeyError"
proof -
  have a1: "albums_of (payload [album_ok]) = Inr (JArr [album_ok])"
    by (simp add: albums_of_def payload_def)
  have a2: "albums_of (payload [album_ok, album_no_artists]) = Inr (JArr [album_ok, album_no_artists])"
    by (simp add: albums_of_def payload_def)
  have c1: "list_all item_complete [album_ok]"
    by (simp add: item_complete_def album_ok_def has_key_def)
  have c2: "\<not> list_all item_complete [album_ok, album_no_artists]"
    by (simp add: item_complete_def album_no_artists_def has_key_def)
  have k: "process_data (payload [album_ok, album_no_artists]) \<noteq> Inl IndexError \<and>
    process_data (payload [album_ok, album_no_artists]) \<noteq> Inl TypeError"
    by (simp add: process_data_def albums_of_def payload_def item_record_def album_ok_def
        album_no_artists_def)
  from process_data_all_or_raise [OF a1] process_data_all_or_raise [OF a2] a1 a2 c1 c2 k
  show ?thesis by blast
qed

section \<open>The quality score\<close>

lemma count_ones: "sum_list (map (\<lambda>d. (1::int)) xs) = int (length xs)"
  by (induction xs) simp_all

text \<open>
  Claim C4 says that every call of the quality assessor makes \<open>quality_scores\<close> one
  longer, also on an empty store. On the fresh agent, whose store is empty,
  \<^verbatim>\<open>assess_data_quality\<close> returns 0 and \<open>quality_scores\<close> keeps its length.
\<close>

theorem no_score_for_empty_store_counterexample:
  "data_store (init_agent (Finite 1) 20) = [] \<and>
   fst (assess_data_quality (init_agent (Finite 1) 20)) = 0 \<and>
   length (quality_scores (snd (assess_data_quality (init_agent (Finite 1) 20))))
     = length (quality_scores (init_agent (Finite 1) 20))"
  by (simp add: assess_data_quality_def init_agent_def)

text \<open>
  Claim C4 as amended: a call of \<^verbatim>\<open>assess_data_quality\<close> on a non-empty store appends
  exactly the score it returns to \<open>quality_scores\<close>, which grows by one; on an empty store
  it returns 0 and changes nothing.
\<close>

theorem score_appended_unless_store_empty:
  "(data_store s \<noteq> [] \<longrightarrow>
      quality_scores (snd (assess_data_quality s)) = quality_scores s @ [fst (assess_data_quality s)] \<and>
      length (quality_scores (snd (assess_data_quality s))) = length (quality_scores s) + 1) \<and>
   (data_store s = [] \<longrightarrow>
      fst (assess_data_quality s) = 0 \<and> snd (assess_data_quality s) = s)"
  by (simp add: assess_data_quality_def Let_def)

text \<open>The amended claim C4 on an agent with one stored record and on the fresh agent.\<close>

theorem score_appended_unless_store_empty_witness:
  "data_store one_record_agent \<noteq> [] \<and>
   length (quality_scores (snd (assess_data_quality one_record_agent)))
     = length (quality_scores one_record_agent) + 1 \<and>
   data_store (init_agent (Finite 1) 20) = [] \<and>
   snd (assess_data_quality (init_agent (Finite 1) 20)) = init_agent (Finite 1) 20"
  using score_appended_unless_store_empty [of one_record_agent]
    score_appended_unless_store_empty [of "init_agent (Finite 1) 20"]
  by (simp add: one_record_agent_def init_agent_def)

text \<open>
  Claim C6: the score \<^verbatim>\<open>assess_data_quality\<close> returns is 0 for an empty store, and for a
  non-empty store the number of records with both \<^verbatim>\<open>name\<close> and \<^verbatim>\<open>artist\<close> divided by
  the number of records; it lies between 0 and 1.
\<close>

theorem quality_score_value:
  "(data_store s = [] \<longrightarrow> fst (assess_data_quality s) = 0) \<and>
   (data_store s \<noteq> [] \<longrightarrow>
      fst (assess_data_quality s)
        = real (length (filter (\<lambda>d. has_key ''name'' d \<and> has_key ''artist'' d) (data_store s)))
          / real (length (data_store s))) \<and>
   0 \<le> fst (assess_data_quality s) \<and> fst (assess_data_quality s) \<le> 1"
proof -
  let ?c = "filter complete_record (data_store s)"
  have eq: "complete_record = (\<lambda>d. has_key ''name'' d \<and> has_key ''artist'' d)"
    by (simp add: complete_record_def fun_eq_iff)
  have le: "length ?c \<le> length (data_store s)" by simp
  show ?thesis
  proof (cases "data_store s = []")
    case True
    then show ?thesis by (simp add: assess_data_quality_def)
  next
    case False
    then have pos: "0 < real (length (data_store s))" by simp
    have v: "fst (assess_data_quality s) = real (length ?c) / real (length (data_store s))"
      using False by (simp add: assess_data_quality_def Let_def count_ones)
    have "real (length ?c) / real (length (data_store s)) \<le> 1"
      using le pos by (simp add: divide_le_eq_1)
    with v False show ?thesis by (simp add: eq)
  qed
qed

text \<open>Claim C6 on the fresh agent and on an agent with one stored, complete record.\<close>

theorem quality_score_value_witness:
  "data_store (init_agent (Finite 1) 20) = [] \<and> fst (assess_data_quality (init_agent (Finite 1) 20)) = 0 \<and>
   data_store one_record_agent \<noteq> [] \<and> fst (assess_data_quality one_record_agent) = 1"
  using quality_score_value [of "init_agent (Finite 1) 20"] quality_score_value [of one_record_agent]
  by (simp add: one_record_agent_def init_agent_def has_key_def)

section \<open>The delay multiplier\<close>

text \<open>
  Claim C7: where the success rate is below 0.5, \<^verbatim>\<open>adjust_strategy\<close> doubles
  \<open>delay_multiplier\<close>; where it lies in \<open>[0.5, 0.9]\<close>, \<open>delay_multiplier\<close> is unchanged.
\<close>

theorem adjust_strategy_doubles_below_half:
  "(get_success_rate s < 0.5 \<longrightarrow>
      delay_multiplier (adjust_strategy s) = 2 * delay_multiplier s) \<and>
   (0.5 \<le> get_success_rate s \<and> get_success_rate s \<le> 0.9 \<longrightarrow>
      delay_multiplier (adjust_strategy s) = delay_multiplier s)"
  by (simp add: adjust_strategy_def Let_def)

text \<open>Claim C7 at the success rates \<open>1/4\<close> and \<open>3/4\<close>.\<close>

theorem adjust_strategy_doubles_below_half_witness:
  "get_success_rate low_rate_agent < 0.5 \<and>
   delay_multiplier (adjust_strategy low_rate_agent) = 2 * delay_multiplier low_rate_agent \<and>
   0.5 \<le> get_success_rate middle_rate_agent \<and> get_success_rate middle_rate_agent \<le> 0.9 \<and>
   delay_multiplier (adjust_strategy middle_rate_agent) = delay_multiplier middle_rate_agent"
proof -
  have l: "get_success_rate low_rate_agent < 0.5"
    by (simp add: get_success_rate_def low_rate_agent_def init_agent_def)
  have m: "0.5 \<le> get_success_rate middle_rate_agent \<and> get_success_rate middle_rate_agent \<le> 0.9"
    by (simp add: get_success_rate_def middle_rate_agent_def init_agent_def)
  from adjust_strategy_doubles_below_half [of low_rate_agent]
    adjust_strategy_doubles_below_half [of middle_rate_agent] l m
  show ?thesis by blast
qed

lemma success_rate_after_quality:
  "get_success_rate (snd (assess_data_quality s)) = get_success_rate s"
  by (simp add: get_success_rate_def assess_data_quality_fields)

lemma adjust_strategy_under_guard:
  "get_success_rate s < 0.8 \<Longrightarrow>
     adjust_strategy s =
       (if get_success_rate s < 0.5 then s\<lparr>delay_multiplier := delay_multiplier s * 2\<rparr> else s)"
  by (simp add: adjust_strategy_def Let_def)

lemma assess_performance_delay:
  "delay_multiplier (assess_performance s) = delay_multiplier s \<or>
   delay_multiplier (assess_performance s) = 2 * delay_multiplier s"
proof (cases "get_success_rate s < 0.8")
  case True
  then have "get_success_rate (snd (assess_data_quality s)) < 0.8"
    by (simp add: success_rate_after_quality)
  from adjust_strategy_under_guard [OF this] True show ?thesis
    by (simp add: assess_performance_def Let_def assess_data_quality_fields)
next
  case False
  then show ?thesis
    by (simp add: assess_performance_def Let_def assess_data_quality_fields)
qed

lemma loop_body_delay:
  assumes "loop_body r j s = (x, s')"
  shows "delay_multiplier s' = delay_multiplier s \<or> delay_multiplier s' = 2 * delay_multiplier s"
proof -
  obtain d s1 where c: "collect_batch r s = (d, s1)" by (cases "collect_batch r s")
  then have d1: "delay_multiplier s1 = delay_multiplier s"
    by (auto simp: collect_batch_def Let_def split: http_outcome.splits if_splits option.splits)
  show ?thesis
  proof (cases "handle_data d s1")
    case (Inl e)
    with assms c d1 show ?thesis by (simp add: loop_body_def)
  next
    case (Inr s2)
    from assms c Inr have "s' = assess_performance s2" by (simp add: loop_body_def Let_def)
    with assess_performance_delay [of s2] handle_data_fields(5) [OF Inr] d1 show ?thesis by simp
  qed
qed

lemma reachable_delay_ge_1: "reachable bd mr s \<Longrightarrow> 1 \<le> delay_multiplier s"
proof (induction rule: reachable.induct)
  case start
  show ?case by (simp add: init_agent_def)
next
  case (iteration s r jitter s')
  from loop_body_delay [OF iteration.hyps(3)] iteration.IH show ?case by auto
qed

text \<open>
  Claim C5: from every agent a run can have at the head of its loop, an iteration never
  decreases \<open>delay_multiplier\<close>. It either keeps it or doubles it: the branch of
  \<^verbatim>\<open>adjust_strategy\<close> that multiplies by 0.8 needs a success rate above 0.9, and
  \<^verbatim>\<open>assess_performance\<close> calls \<^verbatim>\<open>adjust_strategy\<close> only below 0.8.
\<close>

theorem delay_multiplier_never_decreases:
  assumes "reachable bd mr s" and "loop_body r jitter s = (x, s')"
  shows "delay_multiplier s \<le> delay_multiplier s' \<and>
         (delay_multiplier s' = delay_multiplier s \<or> delay_multiplier s' = 2 * delay_multiplier s)"
  using loop_body_delay [OF assms(2)] reachable_delay_ge_1 [OF assms(1)] by auto

text \<open>Claim C5 on the first iteration of a run whose GET raises.\<close>

theorem delay_multiplier_never_decreases_witness:
  "reachable (Finite 1) 3 (init_agent (Finite 1) 3) \<and>
   delay_multiplier (init_agent (Finite 1) 3)
     \<le> delay_multiplier (snd (loop_body Raises 1 (init_agent (Finite 1) 3))) \<and>
   delay_multiplier (snd (loop_body Raises 1 (init_agent (Finite 1) 3)))
     = 2 * delay_multiplier (init_agent (Finite 1) 3)"
proof -
  have v: "delay_multiplier (snd (loop_body Raises 1 (init_agent (Finite 1) 3))) = 2"
    by (simp add: loop_body_def collect_batch_def init_agent_def handle_data_def
      assess_performance_def assess_data_quality_def get_success_rate_def adjust_strategy_def Let_def)
  have i: "delay_multiplier (init_agent (Finite 1) 3) = 1" by (simp add: init_agent_def)
  have "loop_body Raises 1 (init_agent (Finite 1) 3)
      = (fst (loop_body Raises 1 (init_agent (Finite 1) 3)),
         snd (loop_body Raises 1 (init_agent (Finite 1) 3)))"
    by simp
  from delay_multiplier_never_decreases [OF reachable.start this] v i
    reachable.start [of "Finite 1" 3]
  show ?thesis by simp
qed

section \<open>A run without a token\<close>

text \<open>
  Claim C9: when \<^verbatim>\<open>get_token\<close> fails, the run of a fresh agent ends aborted, which is
  not complete, before any iteration: the three counters are 0, \<open>quality_scores\<close> is
  empty and the store is empty.
\<close>

theorem no_token_aborts:
  assumes "get_token tr = None"
  shows "run_collection tr env (init_agent bd mr) = (ABORTED, init_agent bd mr) \<and>
         ABORTED \<noteq> COMPLETE \<and>
         total_requests (snd (run_collection tr env (init_agent bd mr))) = 0 \<and>
         successful_requests (snd (run_collection tr env (init_agent bd mr))) = 0 \<and>
         failed_requests (snd (run_collection tr env (init_agent bd mr))) = 0 \<and>
         quality_scores (snd (run_collection tr env (init_agent bd mr))) = [] \<and>
         data_store (snd (run_collection tr env (init_agent bd mr))) = []"
  using assms by (simp add: run_collection_def init_agent_def)

text \<open>Claim C9 where the POST to the token endpoint raises.\<close>

theorem no_token_aborts_witness:
  "get_token Raises = None \<and>
   run_collection Raises env_ok (init_agent (Finite 1) 20) = (ABORTED, init_agent (Finite 1) 20) \<and>
   total_requests (snd (run_collection Raises env_ok (init_agent (Finite 1) 20))) = 0 \<and>
   data_store (snd (run_collection Raises env_ok (init_agent (Finite 1) 20))) = []"
proof -
  have t: "get_token Raises = None" by (simp add: get_token_def)
  from no_token_aborts [OF t, of env_ok "Finite 1" 20] t show ?thesis by blast
qed

section \<open>The records in the store\<close>

lemma item_record_keys: "item_record a = Inr r \<Longrightarrow> complete_record r"
  by (auto simp: item_record_def complete_record_def has_key_def split: sum.splits)

lemma comprehend_valid: "comprehend its = Inr recs \<Longrightarrow> list_all complete_record recs"
proof (induction its arbitrary: recs)
  case Nil
  then show ?case by simp
next
  case (Cons a its)
  from Cons.prems obtain r rs where r: "item_record a = Inr r" and rs: "comprehend its = Inr rs"
    and recs: "recs = r # rs"
    by (auto split: sum.splits)
  from item_record_keys [OF r] Cons.IH [OF rs] recs show ?case by simp
qed

lemma process_data_valid: "process_data data = Inr recs \<Longrightarrow> validate_data recs"
  by (auto simp: process_data_def validate_data_def split: sum.splits dest: comprehend_valid)

lemma handle_data_store:
  assumes "handle_data d s = Inr s'" and "list_all complete_record (data_store s)"
  shows "list_all complete_record (data_store s')"
  using assms process_data_valid
  by (auto simp: handle_data_def store_if_valid_def store_data_def validate_data_def
      split: option.splits if_splits sum.splits)

lemma collect_batch_store: "collect_batch r s = (d, s1) \<Longrightarrow> data_store s1 = data_store s"
  by (auto simp: collect_batch_def Let_def split: http_outcome.splits if_splits option.splits)

lemma loop_body_store:
  assumes "loop_body r j s = (x, s')" and "list_all complete_record (data_store s)"
  shows "list_all complete_record (data_store s')"
proof -
  obtain d s1 where c: "collect_batch r s = (d, s1)" by (cases "collect_batch r s")
  from collect_batch_store [OF c] assms(2) have s1: "list_all complete_record (data_store s1)"
    by simp
  show ?thesis
  proof (cases "handle_data d s1")
    case (Inl e)
    with assms(1) c s1 show ?thesis by (simp add: loop_body_def)
  next
    case (Inr s2)
    from assms(1) c Inr have "s' = assess_performance s2" by (simp add: loop_body_def Let_def)
    with handle_data_store [OF Inr s1] show ?thesis by (simp add: assess_performance_fields)
  qed
qed

lemma reachable_store_complete: "reachable bd mr s \<Longrightarrow> list_all complete_record (data_store s)"
proof (induction rule: reachable.induct)
  case start
  show ?case by (simp add: init_agent_def)
next
  case (iteration s r jitter s')
  from loop_body_store [OF iteration.hyps(3) iteration.IH] show ?case .
qed

lemma complete_store_scores_1:
  assumes "list_all complete_record (data_store s)" and "data_store s \<noteq> []"
  shows "fst (assess_data_quality s) = 1"
proof -
  from assms(1) have "filter complete_record (data_store s) = data_store s"
    by (simp add: list_all_iff)
  with assms(2) show ?thesis
    by (simp add: assess_data_quality_def Let_def count_ones)
qed

text \<open>
  Claim C10: every batch \<^verbatim>\<open>process_data\<close> produces passes \<^verbatim>\<open>validate_data\<close>; every
  record in the store of an agent a run can have at the head of its loop has both
  \<^verbatim>\<open>name\<close> and \<^verbatim>\<open>artist\<close>, and the quality score of a non-empty such store is 1.
\<close>

theorem stored_records_complete:
  "(process_data data = Inr recs \<longrightarrow> validate_data recs) \<and>
   (reachable bd mr s \<longrightarrow>
      (\<forall>d \<in> set (data_store s). has_key ''name'' d \<and> has_key ''artist'' d) \<and>
      (data_store s \<noteq> [] \<longrightarrow> fst (assess_data_quality s) = 1))"
proof (intro conjI impI)
  assume "process_data data = Inr recs"
  then show "validate_data recs" by (rule process_data_valid)
next
  assume "reachable bd mr s"
  then have "list_all complete_record (data_store s)" by (rule reachable_store_complete)
  then show "\<forall>d \<in> set (data_store s). has_key ''name'' d \<and> has_key ''artist'' d"
    by (simp add: list_all_iff complete_record_def)
next
  assume "reachable bd mr s" and "data_store s \<noteq> []"
  then show "fst (assess_data_quality s) = 1"
    by (simp add: reachable_store_complete complete_store_scores_1)
qed

text \<open>Claim C10 on a payload of one well-formed album and on the agent after the first
  iteration that fetched it.\<close>

theorem stored_records_complete_witness:
  "process_data (payload [album_ok])
     = Inr [[(''name'', JStr ''Blue''), (''artist'', JStr ''Ann''), (''id'', JStr ''a1'')]] \<and>
   validate_data [[(''name'', JStr ''Blue''), (''artist'', JStr ''Ann''), (''id'', JStr ''a1'')]] \<and>
   reachable (Finite 1) 2 (snd (loop_body (ok_response (payload [album_ok])) 1 (init_agent (Finite 1) 2))) \<and>
   data_store (snd (loop_body (ok_response (payload [album_ok])) 1 (init_agent (Finite 1) 2))) \<noteq> [] \<and>
   fst (assess_data_quality (snd (loop_body (ok_response (payload [album_ok])) 1 (init_agent (Finite 1) 2)))) = 1"
proof -
  let ?s = "snd (loop_body (ok_response (payload [album_ok])) 1 (init_agent (Finite 1) 2))"
  have p: "process_data (payload [album_ok])
     = Inr [[(''name'', JStr ''Blue''), (''artist'', JStr ''Ann''), (''id'', JStr ''a1'')]]"
    by (simp add: process_data_def albums_of_def payload_def album_ok_def item_record_def)
  have n: "\<not> collection_complete (init_agent (Finite 1) 2)"
    by (simp add: collection_complete_def init_agent_def)
  have f: "fst (loop_body (ok_response (payload [album_ok])) 1 (init_agent (Finite 1) 2)) = None"
    by code_simp
  have st: "data_store ?s \<noteq> []"
    by code_simp
  from f have "loop_body (ok_response (payload [album_ok])) 1 (init_agent (Finite 1) 2) = (None, ?s)"
    by (simp add: prod_eq_iff)
  from reachable.iteration [OF reachable.start n this] have r: "reachable (Finite 1) 2 ?s" .
  from stored_records_complete [of "payload [album_ok]" _ "Finite 1" 2 ?s] p r st
  show ?thesis by simp
qed

section \<open>Validation of a batch\<close>

lemma loop_body_ok_response:
  assumes "truthy j"
  shows "loop_body (ok_response j) jitter s =
     (let s1 = s\<lparr>total_requests := total_requests s + 1,
                  successful_requests := successful_requests s + 1\<rparr> in
      case process_data j of
        Inl e \<Rightarrow> (Some e, s1)
      | Inr processed \<Rightarrow>
          (respectful_delay jitter (assess_performance (store_if_valid processed s1)),
           assess_performance (store_if_valid processed s1)))"
  using assms
  by (simp add: loop_body_def collect_batch_def ok_response_def handle_data_def Let_def
      split: sum.splits)

text \<open>
  Claim C8 says that a batch with a record that lacks a required field is discarded by
  the validation while the iteration goes on. When a successful fetch returns an album
  without \<^verbatim>\<open>artists\<close> after a well-formed one, no batch reaches \<^verbatim>\<open>validate_data\<close>:
  \<^verbatim>\<open>process_data\<close> raises KeyError, which ends the iteration and the run after one
  request of three.
\<close>

theorem invalid_item_raises_counterexample:
  "fst (loop_body (ok_response (payload [album_ok, album_no_artists])) 1 (init_agent (Finite 1) 3))
     = Some KeyError \<and>
   fst (collection_loop env_mixed 0 (init_agent (Finite 1) 3)) = RAISED KeyError \<and>
   total_requests (snd (collection_loop env_mixed 0 (init_agent (Finite 1) 3))) = 1"
  by code_simp

text \<open>
  Claim C8 as amended: in an iteration whose fetch succeeded with a payload that lists
  its items, \<open>total_requests\<close> and \<open>successful_requests\<close> go up by one and the batch is
  stored whole or not at all. If some item lacks a sub-field, \<^verbatim>\<open>process_data\<close> raises
  KeyError, IndexError or TypeError, the exception leaves the iteration and the store is
  unchanged; if every item has its
  sub-fields, the processed batch passes \<^verbatim>\<open>validate_data\<close> and is appended whole.
  \<^verbatim>\<open>validate_data\<close> with \<^verbatim>\<open>store_data\<close> stores any batch whole when every record has
  \<^verbatim>\<open>name\<close> and \<^verbatim>\<open>artist\<close> and not at all otherwise.
\<close>

theorem fetched_batch_stored_whole_or_raises:
  assumes "albums_of j = Inr (JArr its)" and "truthy j"
  shows "(\<not> list_all item_complete its \<longrightarrow>
            (\<exists>e. (e = KeyError \<or> e = IndexError \<or> e = TypeError) \<and> process_data j = Inl e \<and>
                 fst (loop_body (ok_response j) jitter s) = Some e) \<and>
            data_store (snd (loop_body (ok_response j) jitter s)) = data_store s) \<and>
         (list_all item_complete its \<longrightarrow>
            (\<exists>recs. process_data j = Inr recs \<and> validate_data recs \<and>
               data_store (snd (loop_body (ok_response j) jitter s)) = data_store s @ recs)) \<and>
         total_requests (snd (loop_body (ok_response j) jitter s)) = total_requests s + 1 \<and>
         successful_requests (snd (loop_body (ok_response j) jitter s))
           = successful_requests s + 1 \<and>
         failed_requests (snd (loop_body (ok_response j) jitter s)) = failed_requests s \<and>
         data_store (store_if_valid processed s) =
           (if list_all (\<lambda>d. has_key ''name'' d \<and> has_key ''artist'' d) processed
            then data_store s @ processed else data_store s)"
proof -
  have pd: "process_data j = comprehend its"
    using assms(1) by (simp add: process_data_def)
  have eq: "complete_record = (\<lambda>d. has_key ''name'' d \<and> has_key ''artist'' d)"
    by (simp add: complete_record_def fun_eq_iff)
  have st: "data_store (store_if_valid processed s) =
           (if list_all (\<lambda>d. has_key ''name'' d \<and> has_key ''artist'' d) processed
            then data_store s @ processed else data_store s)"
    by (simp add: store_if_valid_def validate_data_def store_data_def eq)
  note lb = loop_body_ok_response [OF assms(2), of jitter s]
  show ?thesis
  proof (cases "comprehend its")
    case (Inl e)
    with comprehend_complete [of its] have "\<not> list_all item_complete its" by auto
    with Inl comprehend_errors [OF Inl] pd lb st show ?thesis by (simp add: Let_def)
  next
    case (Inr recs)
    from comprehend_Inr [OF Inr] have c: "list_all item_complete its" by simp
    from Inr pd have p: "process_data j = Inr recs" by simp
    from process_data_valid [OF p] have v: "validate_data recs" .
    from p v c lb st show ?thesis
      by (simp add: Let_def assess_performance_fields store_if_valid_fields)
        (simp add: store_if_valid_def store_data_def)
  qed
qed

text \<open>The amended claim C8 on the first iteration of a run, with a payload whose second
  album has no artists and with a payload of one well-formed album.\<close>

theorem fetched_batch_stored_whole_or_raises_witness:
  "albums_of (payload [album_ok, album_no_artists]) = Inr (JArr [album_ok, album_no_artists]) \<and>
   truthy (payload [album_ok, album_no_artists]) \<and>
   \<not> list_all item_complete [album_ok, album_no_artists] \<and>
   fst (loop_body (ok_response (payload [album_ok, album_no_artists])) 1 (init_agent (Finite 1) 3))
     = Some KeyError \<and>
   data_store (snd (loop_body (ok_response (payload [album_ok, album_no_artists])) 1
      (init_agent (Finite 1) 3))) = [] \<and>
   total_requests (snd (loop_body (ok_response (payload [album_ok, album_no_artists])) 1
      (init_agent (Finite 1) 3))) = 1 \<and>
   successful_requests (snd (loop_body (ok_response (payload [album_ok, album_no_artists])) 1
      (init_agent (Finite 1) 3))) = 1 \<and>
   albums_of (payload [album_ok]) = Inr (JArr [album_ok]) \<and> truthy (payload [album_ok]) \<and>
   list_all item_complete [album_ok] \<and>
   data_store (snd (loop_body (ok_response (payload [album_ok])) 1 (init_agent (Finite 1) 3)))
     = [[(''name'', JStr ''Blue''), (''artist'', JStr ''Ann''), (''id'', JStr ''a1'')]]"
proof -
  have a1: "albums_of (payload [album_ok]) = Inr (JArr [album_ok])"
    by (simp add: albums_of_def payload_def)
  have a2: "albums_of (payload [album_ok, album_no_artists]) = Inr (JArr [album_ok, album_no_artists])"
    by (simp add: albums_of_def payload_def)
  have t1: "truthy (payload [album_ok])" and t2: "truthy (payload [album_ok, album_no_artists])"
    by (simp_all add: payload_def)
  have c1: "list_all item_complete [album_ok]"
    by (simp add: item_complete_def album_ok_def has_key_def)
  have c2: "\<not> list_all item_complete [album_ok, album_no_artists]"
    by (simp add: item_complete_def album_no_artists_def has_key_def)
  have p1: "process_data (payload [album_ok])
     = Inr [[(''name'', JStr ''Blue''), (''artist'', JStr ''Ann''), (''id'', JStr ''a1'')]]"
    by (simp add: process_data_def albums_of_def payload_def album_ok_def item_record_def)
  have p2: "process_data (payload [album_ok, album_no_artists]) = Inl KeyError"
    by (simp add: process_data_def albums_of_def payload_def item_record_def album_ok_def
        album_no_artists_def)
  from fetched_batch_stored_whole_or_raises [OF a2 t2, of 1 "init_agent (Finite 1) 3"] c2 p2
  have w2: "fst (loop_body (ok_response (payload [album_ok, album_no_artists])) 1 (init_agent (Finite 1) 3))
     = Some KeyError \<and>
   data_store (snd (loop_body (ok_response (payload [album_ok, album_no_artists])) 1
      (init_agent (Finite 1) 3))) = [] \<and>
   total_requests (snd (loop_body (ok_response (payload [album_ok, album_no_artists])) 1
      (init_agent (Finite 1) 3))) = 1 \<and>
   successful_requests (snd (loop_body (ok_response (payload [album_ok, album_no_artists])) 1
      (init_agent (Finite 1) 3))) = 1"
    by (auto simp: init_agent_def)
  from fetched_batch_stored_whole_or_raises [OF a1 t1, of 1 "init_agent (Finite 1) 3"] c1 p1
  have w1: "data_store (snd (loop_body (ok_response (payload [album_ok])) 1 (init_agent (Finite 1) 3)))
     = [[(''name'', JStr ''Blue''), (''artist'', JStr ''Ann''), (''id'', JStr ''a1'')]]"
    by (auto simp: init_agent_def)
  from a1 a2 t1 t2 c1 c2 w1 w2 show ?thesis by blast
qed

section \<open>How the loop ends\<close>


text \<open>What \<^verbatim>\<open>time.sleep\<close> raises, on three base delays, and when it raises nothing.\<close>

lemma respectful_delay_overflow_example:
  "respectful_delay 1 (init_agent (Finite 10000000000) 20) = Some OverflowError"
  by (simp add: respectful_delay_def time_sleep_def init_agent_def)

lemma respectful_delay_negative_example:
  "respectful_delay 1 (init_agent (Finite (-1)) 20) = Some ValueError"
  by (simp add: respectful_delay_def time_sleep_def init_agent_def)

lemma respectful_delay_nan_example:
  "respectful_delay 1 (init_agent NaN 20) = Some ValueError \<and>
   respectful_delay 1 (init_agent PosInf 20) = Some OverflowError"
  by (simp add: respectful_delay_def time_sleep_def init_agent_def)













end
